theory Spec2Isabelle
  imports Main "HOL-Library.AList"
begin

section \<open>Column-name sanitisation: \<open>clean_and_ensure_unique\<close>\<close>

text \<open>
  A Python \<open>str\<close> is modelled as a \<open>string\<close>. The pattern \<open>[^A-Za-z0-9_]+\<close> keeps
  ASCII letters, digits and the underscore only, so a character outside ASCII is removed
  whatever its encoding; the model reads it as bytes that are all removed as well.
\<close>

definition word_char :: "char \<Rightarrow> bool" where
  "word_char c =
     (let n = (of_char c :: nat)
      in (65 \<le> n \<and> n \<le> 90) \<or> (97 \<le> n \<and> n \<le> 122) \<or> (48 \<le> n \<and> n \<le> 57) \<or> n = 95)"

text \<open>
  \<open>re.sub("[^A-Za-z0-9_]+", "", name)\<close>: every maximal run of characters outside the
  class is replaced by the empty string.
\<close>

function re_sub :: "string \<Rightarrow> string" where
  "re_sub [] = []"
| "re_sub (c # cs) =
     (if word_char c then c # re_sub cs
      else re_sub (dropWhile (\<lambda>d. \<not> word_char d) cs))"
  by pat_completeness auto
termination
  by (relation "measure length") (auto simp: length_dropWhile_le less_Suc_eq_le)

text \<open>\<open>str(counter)\<close>: the counter starts at 1 and is only incremented, so it is a \<open>nat\<close>.\<close>

definition digit_char :: "nat \<Rightarrow> char" where
  "digit_char d = char_of (48 + d)"

function str :: "nat \<Rightarrow> string" where
  "str n = (if n < 10 then [digit_char n] else str (n div 10) @ [digit_char (n mod 10)])"
  by pat_completeness auto
termination
  by (relation "measure id") auto

declare str.simps [simp del]

text \<open>
  The dict \<open>seen\<close> is an association list in insertion order; \<open>name in seen\<close> tests the
  keys and \<open>seen[name] = True\<close> is \<open>AList.update\<close>.
\<close>

type_synonym seen_dict = "(string \<times> bool) list"

definition in_seen :: "string \<Rightarrow> seen_dict \<Rightarrow> bool" where
  "in_seen name seen = (name \<in> set (map fst seen))"

text \<open>Injectivity of \<open>str\<close>, needed for the termination of the inner loop.\<close>

lemma str_not_Nil: "str n \<noteq> []"
  by (subst str.simps) simp

lemma digit_char_inj: "a < 10 \<Longrightarrow> b < 10 \<Longrightarrow> digit_char a = digit_char b \<Longrightarrow> a = b"
proof -
  assume a: "a < 10" and b: "b < 10" and e: "digit_char a = digit_char b"
  from e have "(of_char (digit_char a) :: nat) = of_char (digit_char b)" by simp
  with a b show "a = b" by (simp add: digit_char_def)
qed

lemma str_inj: "str n = str m \<Longrightarrow> n = m"
proof (induction n arbitrary: m rule: str.induct)
  case (1 n)
  show ?case
  proof (cases "n < 10")
    case True
    then have sn: "str n = [digit_char n]" by (subst str.simps) simp
    show ?thesis
    proof (cases "m < 10")
      case True
      then have "str m = [digit_char m]" by (subst str.simps) simp
      with sn "1.prems" \<open>n < 10\<close> True show ?thesis by (simp add: digit_char_inj)
    next
      case False
      then have "str m = str (m div 10) @ [digit_char (m mod 10)]" by (subst str.simps) simp
      with sn "1.prems" str_not_Nil [of "m div 10"] show ?thesis by simp
    qed
  next
    case False
    then have sn: "str n = str (n div 10) @ [digit_char (n mod 10)]" by (subst str.simps) simp
    show ?thesis
    proof (cases "m < 10")
      case True
      then have "str m = [digit_char m]" by (subst str.simps) simp
      with sn "1.prems" str_not_Nil [of "n div 10"] show ?thesis by simp
    next
      case m: False
      then have sm: "str m = str (m div 10) @ [digit_char (m mod 10)]" by (subst str.simps) simp
      from sn sm "1.prems" have e1: "str (n div 10) = str (m div 10)"
        and e2: "digit_char (n mod 10) = digit_char (m mod 10)" by simp_all
      from "1.IH" [OF False e1] have "n div 10 = m div 10" .
      moreover from e2 have "n mod 10 = m mod 10" by (simp add: digit_char_inj)
      ultimately show ?thesis by (metis div_mult_mod_eq)
    qed
  qed
qed

lemma candidates_finite: "finite {k. in_seen (original_name @ ''_'' @ str k) seen}"
proof -
  have "inj (\<lambda>k. original_name @ ''_'' @ str k)"
    by (rule injI) (simp add: str_inj)
  then have "finite ((\<lambda>k. original_name @ ''_'' @ str k) -` set (map fst seen))"
    by (rule finite_vimageI [rotated]) simp
  then show ?thesis by (simp add: in_seen_def vimage_def)
qed

text \<open>
  The inner \<open>while name in seen\<close> loop. Its state is \<open>name\<close> and \<open>counter\<close>; it ends
  because \<open>seen\<close> holds finitely many of the candidates \<open>original_name_k\<close>.
\<close>

function while_in_seen :: "string \<Rightarrow> seen_dict \<Rightarrow> string \<Rightarrow> nat \<Rightarrow> string" where
  "while_in_seen original_name seen name counter =
     (if in_seen name seen
      then while_in_seen original_name seen (original_name @ ''_'' @ str counter) (counter + 1)
      else name)"
  by pat_completeness auto
termination
proof (relation "measure (\<lambda>(original_name, seen, name, counter).
    if in_seen name seen
    then Suc (card {k. counter \<le> k \<and> in_seen (original_name @ ''_'' @ str k) seen})
    else 0)")
  show "wf (measure (\<lambda>(original_name, seen, name, counter).
    if in_seen name seen
    then Suc (card {k. counter \<le> k \<and> in_seen (original_name @ ''_'' @ str k) seen})
    else 0))" by simp
next
  fix original_name :: string and seen :: seen_dict and name :: string and counter :: nat
  assume "in_seen name seen"
  let ?K = "\<lambda>c. {k. c \<le> k \<and> in_seen (original_name @ ''_'' @ str k) seen}"
  have fin: "finite (?K counter)"
    by (rule finite_subset [OF _ candidates_finite [of original_name seen]]) auto
  have "in_seen (original_name @ ''_'' @ str counter) seen \<Longrightarrow> card (?K (counter + 1)) < card (?K counter)"
  proof -
    assume c: "in_seen (original_name @ ''_'' @ str counter) seen"
    have "?K (counter + 1) \<subseteq> ?K counter" by auto
    moreover from c have "counter \<in> ?K counter" by simp
    moreover have "counter \<notin> ?K (counter + 1)" by simp
    ultimately have "?K (counter + 1) \<subset> ?K counter" by blast
    with fin show ?thesis by (rule psubset_card_mono)
  qed
  with \<open>in_seen name seen\<close>
  show "((original_name, seen, original_name @ ''_'' @ str counter, counter + 1),
         (original_name, seen, name, counter)) \<in> measure (\<lambda>(original_name, seen, name, counter).
    if in_seen name seen
    then Suc (card {k. counter \<le> k \<and> in_seen (original_name @ ''_'' @ str k) seen})
    else 0)" by simp
qed

declare while_in_seen.simps [simp del]

text \<open>
  The \<open>for i, name in enumerate(cleaned_names)\<close> loop, by index: it writes
  \<open>cleaned_names[i]\<close> in place, at the position it has just read.
\<close>

function ensure_unique :: "nat \<Rightarrow> string list \<Rightarrow> seen_dict \<Rightarrow> string list" where
  "ensure_unique i cleaned_names seen =
     (if i < length cleaned_names
      then let name = while_in_seen (cleaned_names ! i) seen (cleaned_names ! i) 1
           in ensure_unique (i + 1) (cleaned_names[i := name]) (AList.update name True seen)
      else cleaned_names)"
  by pat_completeness auto
termination
  by (relation "measure (\<lambda>(i, cleaned_names, seen). length cleaned_names - i)") auto

declare ensure_unique.simps [simp del]

definition clean_and_ensure_unique :: "string list \<Rightarrow> string list" where
  "clean_and_ensure_unique names = ensure_unique 0 (map re_sub names) []"

text \<open>
  The characters the specification allows in a returned name, written out one by one:
  the ASCII letters, the digits and the underscore.
\<close>

definition name_chars :: "char set" where
  "name_chars = set (''ABCDEFGHIJKLMNOPQRSTUVWXYZ'' @ ''abcdefghijklmnopqrstuvwxyz'' @ ''0123456789'' @ ''_'')"

section \<open>The Classifier wrapper\<close>

subsection \<open>Exceptions\<close>

text \<open>
  An exception is a value: \<open>NotFittedError\<close> is raised by this module, \<open>KeyError\<close> by a
  dict or DataFrame lookup, and \<open>LibraryError\<close> carries whatever the AutoML engine,
  \<open>joblib\<close> or \<open>os\<close> raises, which the module never catches.
\<close>

datatype 'e error = NotFittedError string | KeyError string | LibraryError 'e

subsection \<open>pandas\<close>

text \<open>
  A DataFrame is its columns in order, each a label and its values; labels may repeat.
  \<open>df.drop(columns=labels)\<close> raises \<open>KeyError\<close> when a label is absent and removes
  every column carrying one of the labels. \<open>df[key]\<close> raises \<open>KeyError\<close> when the label
  is absent, gives a Series when one column carries it and a DataFrame of all the columns
  carrying it otherwise.
\<close>

type_synonym 'v DataFrame = "(string \<times> 'v list) list"

datatype 'v selection = Series string "'v list" | Frame "'v DataFrame"

definition columns :: "'v DataFrame \<Rightarrow> string list" where
  "columns df = map fst df"

definition drop_columns :: "string list \<Rightarrow> 'v DataFrame \<Rightarrow> 'e error + 'v DataFrame" where
  "drop_columns labels df =
     (case filter (\<lambda>l. l \<notin> set (columns df)) labels of
        [] \<Rightarrow> Inr (filter (\<lambda>col. fst col \<notin> set labels) df)
      | l # _ \<Rightarrow> Inl (KeyError l))"

definition getitem :: "'v DataFrame \<Rightarrow> string \<Rightarrow> 'e error + 'v selection" where
  "getitem df key =
     (case filter (\<lambda>col. fst col = key) df of
        [] \<Rightarrow> Inl (KeyError key)
      | [col] \<Rightarrow> Inr (Series (fst col) (snd col))
      | cols \<Rightarrow> Inr (Frame cols))"

text \<open>\<open>d[key]\<close> on a dict.\<close>

definition dict_getitem :: "(string \<rightharpoonup> 'j) \<Rightarrow> string \<Rightarrow> 'e error + 'j" where
  "dict_getitem d key = (case d key of None \<Rightarrow> Inl (KeyError key) | Some v \<Rightarrow> Inr v)"

subsection \<open>The schema and the AutoML engine\<close>

text \<open>
  \<open>ClassificationSchema\<close> is declared outside the module; the module reads its fields
  \<open>target\<close> and \<open>model_category\<close> only, and the record's extension stands for the rest.
\<close>

record ClassificationSchema =
  target :: string
  model_category :: string

datatype autosklearn_metric = f1 | f1_macro

text \<open>The keyword arguments \<open>__init__\<close> gives to \<open>AutoSklearnClassifier\<close>.\<close>

record 'j automl_args =
  time_left_for_this_task :: 'j
  per_run_time_limit :: 'j
  metric :: autosklearn_metric
  include_arg :: 'j
  seed :: 'j

text \<open>
  The engine is external: its object is a value of type \<open>'m\<close> and its operations are
  parameters. \<open>fit\<close> changes the object and may raise; \<open>predict\<close> and
  \<open>predict_proba\<close> read the object, and their outcome \<open>'out\<close> is whatever the engine
  gives, an array or an exception.
\<close>

record ('m, 'v, 'j, 'e, 'out) engine =
  AutoSklearnClassifier :: "'j automl_args \<Rightarrow> 'm"
  automl_fit :: "'m \<Rightarrow> 'v DataFrame \<Rightarrow> 'v selection \<Rightarrow> ('e + unit) \<times> 'm"
  automl_predict :: "'m \<Rightarrow> 'v DataFrame \<Rightarrow> 'out"
  automl_predict_proba :: "'m \<Rightarrow> 'v DataFrame \<Rightarrow> 'out"

subsection \<open>The file system and joblib\<close>

text \<open>
  The file system is a state of type \<open>'fs\<close>; \<open>os.path.exists\<close>, \<open>os.makedirs\<close>,
  \<open>joblib.dump\<close> and \<open>joblib.load\<close> are parameters. An operation that writes returns
  its outcome and the new state.
\<close>

record ('obj, 'fs, 'e) storage =
  os_path_exists :: "string \<Rightarrow> 'fs \<Rightarrow> bool"
  os_makedirs :: "string \<Rightarrow> 'fs \<Rightarrow> ('e + unit) \<times> 'fs"
  joblib_dump :: "'obj \<Rightarrow> string \<Rightarrow> 'fs \<Rightarrow> ('e + unit) \<times> 'fs"
  joblib_load :: "string \<Rightarrow> 'fs \<Rightarrow> 'e + 'obj"

text \<open>
  \<open>os.path.join(a, b)\<close> of \<open>posixpath\<close>, for one component \<open>b\<close>: an absolute \<open>b\<close>
  replaces \<open>a\<close>; otherwise a separator is put between them unless \<open>a\<close> is empty or
  ends with one.
\<close>

definition os_path_join :: "string \<Rightarrow> string \<Rightarrow> string" where
  "os_path_join a b =
     (if take 1 b = ''/'' then b
      else if a = [] \<or> last a = CHR ''/'' then a @ b
      else a @ ''/'' @ b)"

definition PREDICTOR_FILE_NAME :: string where
  "PREDICTOR_FILE_NAME = ''predictor.joblib''"

subsection \<open>The class\<close>

text \<open>The instance attributes; \<open>is_trained\<close> is \<open>_is_trained\<close>.\<close>

record ('v, 'j, 'm, 'z) Classifier =
  is_trained :: bool
  x :: "'v DataFrame"
  y :: "'v selection"
  schema :: "'z ClassificationSchema_scheme"
  model_name :: string
  model_config :: "string \<rightharpoonup> 'j"
  automl :: 'm

text \<open>
  \<open>Classifier.__init__\<close>. The dict \<open>config\<close> is what
  \<open>read_json_as_dict(paths.MODEL_CONFIG_FILE_PATH)\<close> returns; both names are declared
  outside the module. The statements run in the source's order, so the first failing
  lookup decides the exception.
\<close>

definition Classifier_init ::
  "('m, 'v, 'j, 'e, 'out) engine \<Rightarrow> (string \<rightharpoonup> 'j) \<Rightarrow> 'v DataFrame \<Rightarrow>
   'z ClassificationSchema_scheme \<Rightarrow> 'e error + ('v, 'j, 'm, 'z) Classifier" where
  "Classifier_init eng config train_input sch =
     (case drop_columns [target sch] train_input of Inl e \<Rightarrow> Inl e | Inr self_x \<Rightarrow>
      case getitem train_input (target sch) of Inl e \<Rightarrow> Inl e | Inr self_y \<Rightarrow>
      let metric_arg = (if model_category sch = ''binary_classification'' then f1 else f1_macro) in
      case dict_getitem config ''task_time'' of Inl e \<Rightarrow> Inl e | Inr task_time \<Rightarrow>
      case dict_getitem config ''model_time'' of Inl e \<Rightarrow> Inl e | Inr model_time \<Rightarrow>
      case dict_getitem config ''include'' of Inl e \<Rightarrow> Inl e | Inr incl \<Rightarrow>
      case dict_getitem config ''seed_value'' of Inl e \<Rightarrow> Inl e | Inr seed_value \<Rightarrow>
      Inr \<lparr>is_trained = False, x = self_x, y = self_y, schema = sch,
           model_name = ''auto_sklearn_classifier'', model_config = config,
           automl = AutoSklearnClassifier eng
             \<lparr>time_left_for_this_task = task_time, per_run_time_limit = model_time,
              metric = metric_arg, include_arg = incl, seed = seed_value\<rparr>\<rparr>)"

text \<open>
  A method takes \<open>self\<close> and returns its outcome together with \<open>self\<close> as it is when the
  method ends, also when it raises.
\<close>

definition train ::
  "('m, 'v, 'j, 'e, 'out) engine \<Rightarrow> ('v, 'j, 'm, 'z) Classifier \<Rightarrow>
   ('e error + unit) \<times> ('v, 'j, 'm, 'z) Classifier" where
  "train eng self =
     (case automl_fit eng (automl self) (x self) (y self) of
        (Inl e, m) \<Rightarrow> (Inl (LibraryError e), self\<lparr>automl := m\<rparr>)
      | (Inr u, m) \<Rightarrow> (Inr (), self\<lparr>automl := m, is_trained := True\<rparr>))"

definition predict ::
  "('m, 'v, 'j, 'e, 'out) engine \<Rightarrow> ('v, 'j, 'm, 'z) Classifier \<Rightarrow> 'v DataFrame \<Rightarrow>
   'out \<times> ('v, 'j, 'm, 'z) Classifier" where
  "predict eng self inputs = (automl_predict eng (automl self) inputs, self)"

definition predict_proba ::
  "('m, 'v, 'j, 'e, 'out) engine \<Rightarrow> ('v, 'j, 'm, 'z) Classifier \<Rightarrow> 'v DataFrame \<Rightarrow>
   'out \<times> ('v, 'j, 'm, 'z) Classifier" where
  "predict_proba eng self inputs = (automl_predict_proba eng (automl self) inputs, self)"

definition save ::
  "(('v, 'j, 'm, 'z) Classifier, 'fs, 'e) storage \<Rightarrow> ('v, 'j, 'm, 'z) Classifier \<Rightarrow> string \<Rightarrow> 'fs \<Rightarrow>
   ('e error + unit) \<times> ('v, 'j, 'm, 'z) Classifier \<times> 'fs" where
  "save sto self model_dir_path fs =
     (if \<not> is_trained self then (Inl (NotFittedError ''Model is not fitted yet.''), self, fs)
      else case joblib_dump sto self (os_path_join model_dir_path PREDICTOR_FILE_NAME) fs of
             (Inl e, fs') \<Rightarrow> (Inl (LibraryError e), self, fs')
           | (Inr u, fs') \<Rightarrow> (Inr (), self, fs'))"

definition load ::
  "(('v, 'j, 'm, 'z) Classifier, 'fs, 'e) storage \<Rightarrow> string \<Rightarrow> 'fs \<Rightarrow>
   'e error + ('v, 'j, 'm, 'z) Classifier" where
  "load sto model_dir_path fs =
     (case joblib_load sto (os_path_join model_dir_path PREDICTOR_FILE_NAME) fs of
        Inl e \<Rightarrow> Inl (LibraryError e)
      | Inr obj \<Rightarrow> Inr obj)"

subsection \<open>The module's functions\<close>

definition predict_with_model ::
  "('m, 'v, 'j, 'e, 'out) engine \<Rightarrow> ('v, 'j, 'm, 'z) Classifier \<Rightarrow> 'v DataFrame \<Rightarrow> bool \<Rightarrow>
   'out \<times> ('v, 'j, 'm, 'z) Classifier" where
  "predict_with_model eng model data return_proba =
     (if return_proba then predict_proba eng model data else predict eng model data)"



subsection \<open>Test doubles and an example\<close>

text \<open>
  An engine that records: its object holds the constructor arguments and the data of
  every \<open>fit\<close> call, and its predictions name the method and the column labels received.
\<close>

definition recording_engine ::
  "('j automl_args \<times> ('v DataFrame \<times> 'v selection) list, 'v, 'j, string, string \<times> string list) engine" where
  "recording_engine =
     \<lparr>AutoSklearnClassifier = (\<lambda>args. (args, [])),
      automl_fit = (\<lambda>m data labels. (Inr (), (fst m, snd m @ [(data, labels)]))),
      automl_predict = (\<lambda>m data. (''predict'', columns data)),
      automl_predict_proba = (\<lambda>m data. (''predict_proba'', columns data))\<rparr>"

text \<open>
  A file system in memory: the directories and the files with their contents. A file can
  be written only below an existing directory.
\<close>

definition memory_storage :: "('obj, string list \<times> (string \<times> 'obj) list, string) storage" where
  "memory_storage =
     \<lparr>os_path_exists = (\<lambda>p fs. p \<in> set (fst fs) \<or> p \<in> set (map fst (snd fs))),
      os_makedirs = (\<lambda>p fs. if p \<in> set (fst fs) \<or> p \<in> set (map fst (snd fs))
                             then (Inl ''FileExistsError'', fs) else (Inr (), (p # fst fs, snd fs))),
      joblib_dump = (\<lambda>obj p fs. if list_ex (\<lambda>d. take (length d + 1) p = d @ ''/'') (fst fs)
                                 then (Inr (), (fst fs, AList.update p obj (snd fs)))
                                 else (Inl ''FileNotFoundError'', fs)),
      joblib_load = (\<lambda>p fs. case map_of (snd fs) p of
                               None \<Rightarrow> Inl ''FileNotFoundError'' | Some obj \<Rightarrow> Inr obj)\<rparr>"

text \<open>
  The in-memory file system with the behaviour of POSIX at the empty path and at a
  relative file name: \<open>os.path.exists('')\<close> is false, \<open>os.makedirs('')\<close> raises
  \<open>FileNotFoundError\<close>, and a file name without a separator is written in the current
  directory, which always exists.
\<close>

definition posix_storage :: "('obj, string list \<times> (string \<times> 'obj) list, string) storage" where
  "posix_storage =
     \<lparr>os_path_exists = (\<lambda>p fs. p \<noteq> [] \<and> (p \<in> set (fst fs) \<or> p \<in> set (map fst (snd fs)))),
      os_makedirs = (\<lambda>p fs. if p = [] then (Inl ''FileNotFoundError'', fs)
                             else if p \<in> set (fst fs) \<or> p \<in> set (map fst (snd fs))
                             then (Inl ''FileExistsError'', fs) else (Inr (), (p # fst fs, snd fs))),
      joblib_dump = (\<lambda>obj p fs. if CHR ''/'' \<notin> set p \<or>
                                    list_ex (\<lambda>d. take (length d + 1) p = d @ ''/'') (fst fs)
                                 then (Inr (), (fst fs, AList.update p obj (snd fs)))
                                 else (Inl ''FileNotFoundError'', fs)),
      joblib_load = (\<lambda>p fs. case map_of (snd fs) p of
                               None \<Rightarrow> Inl ''FileNotFoundError'' | Some obj \<Rightarrow> Inr obj)\<rparr>"

definition example_schema :: ClassificationSchema where
  "example_schema = \<lparr>target = ''target'', model_category = ''binary_classification''\<rparr>"

definition example_config :: "string \<rightharpoonup> int" where
  "example_config = [''task_time'' \<mapsto> 60, ''model_time'' \<mapsto> 10, ''include'' \<mapsto> 0, ''seed_value'' \<mapsto> 42]"

definition example_train_input :: "int DataFrame" where
  "example_train_input = [(''3P%'', [1, 2]), (''3P'', [3, 4]), (''target'', [0, 1])]"

definition example_classifier ::
  "(int, int, int automl_args \<times> (int DataFrame \<times> int selection) list, unit) Classifier" where
  "example_classifier =
     \<lparr>is_trained = False, x = [(''3P%'', [1, 2]), (''3P'', [3, 4])], y = Series ''target'' [0, 1],
      schema = example_schema, model_name = ''auto_sklearn_classifier'',
      model_config = example_config,
      automl = (\<lparr>time_left_for_this_task = 60, per_run_time_limit = 10, metric = f1,
                 include_arg = 0, seed = 42\<rparr>, [])\<rparr>"

definition example_trained ::
  "(int, int, int automl_args \<times> (int DataFrame \<times> int selection) list, unit) Classifier" where
  "example_trained =
     example_classifier\<lparr>is_trained := True,
       automl := (\<lparr>time_left_for_this_task = 60, per_run_time_limit = 10, metric = f1,
                   include_arg = 0, seed = 42\<rparr>,
                  [([(''3P%'', [1, 2]), (''3P'', [3, 4])], Series ''target'' [0, 1])])\<rparr>"

section \<open>Properties of the sanitisation\<close>

lemma filter_dropWhile_not: "filter P (dropWhile (\<lambda>a. \<not> P a) xs) = filter P xs"
  by (induction xs) auto

lemma re_sub_filter: "re_sub s = filter word_char s"
  by (induction s rule: re_sub.induct) (auto simp: filter_dropWhile_not)

lemma while_in_seen_not_seen: "\<not> in_seen (while_in_seen original_name seen name counter) seen"
proof (induction original_name seen name counter rule: while_in_seen.induct)
  case (1 original_name seen name counter)
  then show ?case by (subst while_in_seen.simps) simp
qed

lemma while_in_seen_form:
  "while_in_seen original_name seen name counter = name \<or>
   (\<exists>k\<ge>counter. while_in_seen original_name seen name counter = original_name @ ''_'' @ str k)"
proof (induction original_name seen name counter rule: while_in_seen.induct)
  case (1 original_name seen name counter)
  show ?case
  proof (cases "in_seen name seen")
    case True
    then have e: "while_in_seen original_name seen name counter =
      while_in_seen original_name seen (original_name @ ''_'' @ str counter) (counter + 1)"
      by (subst while_in_seen.simps) simp
    from "1.IH" [OF True] show ?thesis unfolding e
      by (metis Suc_eq_plus1 Suc_leD order_refl)
  next
    case False
    then show ?thesis by (subst while_in_seen.simps) simp
  qed
qed

lemma while_in_seen_fresh:
  "\<not> in_seen name seen \<Longrightarrow> while_in_seen original_name seen name counter = name"
  by (subst while_in_seen.simps) simp

lemma length_ensure_unique: "length (ensure_unique i cleaned_names seen) = length cleaned_names"
proof (induction i cleaned_names seen rule: ensure_unique.induct)
  case (1 i cleaned_names seen)
  then show ?case by (subst ensure_unique.simps) (simp add: Let_def)
qed

lemma in_seen_update: "in_seen n (AList.update k v seen) = (n = k \<or> in_seen n seen)"
  by (auto simp: in_seen_def dom_update)

text \<open>
  Loop invariant of the \<open>for\<close> loop: the names already written are pairwise distinct and
  are all keys of \<open>seen\<close>; the inner loop returns a name that is not a key.
\<close>

lemma distinct_ensure_unique:
  "i \<le> length cleaned_names \<Longrightarrow> distinct (take i cleaned_names) \<Longrightarrow>
   (\<forall>n\<in>set (take i cleaned_names). in_seen n seen) \<Longrightarrow>
   distinct (ensure_unique i cleaned_names seen)"
proof (induction i cleaned_names seen rule: ensure_unique.induct)
  case (1 i cleaned_names seen)
  show ?case
  proof (cases "i < length cleaned_names")
    case True
    define name where "name = while_in_seen (cleaned_names ! i) seen (cleaned_names ! i) 1"
    have fresh: "\<not> in_seen name seen" unfolding name_def by (rule while_in_seen_not_seen)
    have tk: "take (i + 1) (cleaned_names[i := name]) = take i cleaned_names @ [name]"
      using True by (simp add: take_Suc_conv_app_nth)
    have "distinct (ensure_unique (i + 1) (cleaned_names[i := name]) (AList.update name True seen))"
    proof (rule "1.IH" [OF True name_def])
      show "i + 1 \<le> length (cleaned_names[i := name])" using True by simp
      show "distinct (take (i + 1) (cleaned_names[i := name]))"
        unfolding tk using "1.prems" fresh by auto
      show "\<forall>n\<in>set (take (i + 1) (cleaned_names[i := name])). in_seen n (AList.update name True seen)"
        unfolding tk using "1.prems" by (auto simp: in_seen_update)
    qed
    then show ?thesis using True
      by (subst ensure_unique.simps) (simp add: Let_def name_def)
  next
    case False
    with "1.prems" show ?thesis by (subst ensure_unique.simps) simp
  qed
qed

lemma word_char_name_chars: "word_char c = (c \<in> name_chars)"
proof
  assume w: "word_char c"
  define n where "n = (of_char c :: nat)"
  have c: "c = char_of n" by (simp add: n_def)
  from w have "(65 \<le> n \<and> n \<le> 90) \<or> (97 \<le> n \<and> n \<le> 122) \<or> (48 \<le> n \<and> n \<le> 57) \<or> n = 95"
    by (simp add: word_char_def n_def Let_def)
  then have "n \<in> set ([65..<91] @ [97..<123] @ [48..<58] @ [95::nat])"
    unfolding set_append set_upt by auto
  then have "char_of n \<in> char_of ` set ([65..<91] @ [97..<123] @ [48..<58] @ [95::nat])" by (rule imageI)
  also have "char_of ` set ([65..<91] @ [97..<123] @ [48..<58] @ [95::nat]) = name_chars"
    unfolding name_chars_def set_map [symmetric] by code_simp
  finally show "c \<in> name_chars" by (simp add: c)
next
  assume "c \<in> name_chars"
  then have "list_ex (\<lambda>d. c = d) (''ABCDEFGHIJKLMNOPQRSTUVWXYZ'' @ ''abcdefghijklmnopqrstuvwxyz'' @ ''0123456789'' @ ''_'')"
    by (simp add: name_chars_def list_ex_iff del: set_append append.simps)
  then show "word_char c"
    by (auto simp: word_char_def)
qed

lemma digit_char_digit: "d < 10 \<Longrightarrow> digit_char d \<in> set ''0123456789''"
proof -
  assume "d < 10"
  then have "d \<in> set [0..<10]" by simp
  then have "digit_char d \<in> digit_char ` set [0..<10]" by (rule imageI)
  also have "digit_char ` set [0..<10] = set ''0123456789''"
    unfolding set_map [symmetric] by code_simp
  finally show ?thesis .
qed

lemma str_digits: "set (str n) \<subseteq> set ''0123456789''"
proof (induction n rule: str.induct)
  case (1 n)
  show ?case
  proof (cases "n < 10")
    case True
    then have "str n = [digit_char n]" by (subst str.simps) simp
    with digit_char_digit [OF True] show ?thesis by simp
  next
    case False
    then have "str n = str (n div 10) @ [digit_char (n mod 10)]" by (subst str.simps) simp
    moreover have "digit_char (n mod 10) \<in> set ''0123456789''" by (rule digit_char_digit) simp
    ultimately show ?thesis using "1.IH" [OF False] by simp
  qed
qed

lemma ensure_unique_nth:
  "j < length cleaned_names \<Longrightarrow>
   (j < i \<longrightarrow> ensure_unique i cleaned_names seen ! j = cleaned_names ! j) \<and>
   (i \<le> j \<longrightarrow> ensure_unique i cleaned_names seen ! j = cleaned_names ! j \<or>
      (\<exists>k\<ge>1. ensure_unique i cleaned_names seen ! j = cleaned_names ! j @ ''_'' @ str k))"
proof (induction i cleaned_names seen rule: ensure_unique.induct)
  case (1 i cleaned_names seen)
  show ?case
  proof (cases "i < length cleaned_names")
    case True
    define name where "name = while_in_seen (cleaned_names ! i) seen (cleaned_names ! i) 1"
    let ?cs = "cleaned_names[i := name]"
    let ?r = "ensure_unique (i + 1) ?cs (AList.update name True seen)"
    have e: "ensure_unique i cleaned_names seen = ?r"
      using True by (subst ensure_unique.simps) (simp add: Let_def name_def)
    have form: "name = cleaned_names ! i \<or> (\<exists>k\<ge>1. name = cleaned_names ! i @ ''_'' @ str k)"
      unfolding name_def by (rule while_in_seen_form)
    from "1.prems" have j: "j < length ?cs" by simp
    note IH = "1.IH" [OF True name_def j]
    show ?thesis
    proof (cases "j < i")
      case True
      with IH have "?r ! j = ?cs ! j" by simp
      with True show ?thesis unfolding e by simp
    next
      case False
      show ?thesis
      proof (cases "j = i")
        case True
        with IH have "?r ! j = ?cs ! j" by simp
        with True \<open>i < length cleaned_names\<close> have "?r ! j = name" by simp
        with form True show ?thesis unfolding e by simp
      next
        case ne: False
        with False have "i + 1 \<le> j" by simp
        with IH have "?r ! j = ?cs ! j \<or> (\<exists>k\<ge>1. ?r ! j = ?cs ! j @ ''_'' @ str k)" by simp
        moreover from ne have "?cs ! j = cleaned_names ! j" by simp
        ultimately show ?thesis using False unfolding e by simp
      qed
    qed
  next
    case False
    then have "ensure_unique i cleaned_names seen = cleaned_names"
      by (subst ensure_unique.simps) simp
    then show ?thesis by simp
  qed
qed

lemma ensure_unique_fixed:
  "distinct cleaned_names \<Longrightarrow> (\<forall>n. in_seen n seen = (n \<in> set (take i cleaned_names))) \<Longrightarrow>
   ensure_unique i cleaned_names seen = cleaned_names"
proof (induction i cleaned_names seen rule: ensure_unique.induct)
  case (1 i cleaned_names seen)
  show ?case
  proof (cases "i < length cleaned_names")
    case True
    have "cleaned_names ! i \<notin> set (take i cleaned_names)"
    proof
      assume "cleaned_names ! i \<in> set (take i cleaned_names)"
      then obtain j where "j < i" "cleaned_names ! j = cleaned_names ! i"
        using True by (auto simp: in_set_conv_nth)
      with True "1.prems"(1) show False by (auto simp: distinct_conv_nth)
    qed
    with "1.prems"(2) have "\<not> in_seen (cleaned_names ! i) seen" by simp
    then have w: "while_in_seen (cleaned_names ! i) seen (cleaned_names ! i) 1 = cleaned_names ! i"
      by (rule while_in_seen_fresh)
    have "ensure_unique (i + 1) (cleaned_names[i := cleaned_names ! i])
        (AList.update (cleaned_names ! i) True seen) = cleaned_names[i := cleaned_names ! i]"
    proof (rule "1.IH" [OF True w [symmetric]])
      show "distinct (cleaned_names[i := cleaned_names ! i])" using "1.prems"(1) by simp
      show "\<forall>n. in_seen n (AList.update (cleaned_names ! i) True seen) =
        (n \<in> set (take (i + 1) (cleaned_names[i := cleaned_names ! i])))"
        using "1.prems"(2) True by (auto simp: in_seen_update take_Suc_conv_app_nth)
    qed
    then show ?thesis using True w
      by (subst ensure_unique.simps) (simp add: Let_def)
  next
    case False
    then show ?thesis by (subst ensure_unique.simps) simp
  qed
qed

lemma re_sub_clean: "set name \<subseteq> name_chars \<Longrightarrow> re_sub name = name"
  by (auto simp: re_sub_filter word_char_name_chars filter_id_conv)

lemma re_sub_chars: "set (re_sub name) \<subseteq> name_chars"
  by (auto simp: re_sub_filter word_char_name_chars)

lemma digits_name_chars: "set ''0123456789'' \<subseteq> name_chars"
  by (simp add: name_chars_def)

lemma underscore_name_chars: "CHR ''_'' \<in> name_chars"
  by (simp add: name_chars_def)

lemma clean_and_ensure_unique_nth:
  assumes "i < length names"
  shows "clean_and_ensure_unique names ! i = re_sub (names ! i) \<or>
    (\<exists>k\<ge>1. clean_and_ensure_unique names ! i = re_sub (names ! i) @ ''_'' @ str k)"
proof -
  from assms have "i < length (map re_sub names)" by simp
  from ensure_unique_nth [OF this, of 0 "[]"] assms show ?thesis
    by (simp add: clean_and_ensure_unique_def)
qed

lemma clean_and_ensure_unique_name_chars:
  assumes "name \<in> set (clean_and_ensure_unique names)"
  shows "set name \<subseteq> name_chars"
proof -
  from assms obtain i where i: "i < length names" and n: "name = clean_and_ensure_unique names ! i"
    by (auto simp: in_set_conv_nth clean_and_ensure_unique_def length_ensure_unique)
  from clean_and_ensure_unique_nth [OF i] show ?thesis unfolding n [symmetric]
  proof (elim disjE exE conjE)
    assume "name = re_sub (names ! i)"
    then show ?thesis by (simp add: re_sub_chars)
  next
    fix k assume 2: "name = re_sub (names ! i) @ ''_'' @ str k"
    have "set (str k) \<subseteq> name_chars"
      using str_digits [of k] digits_name_chars by (rule subset_trans)
    with 2 re_sub_chars [of "names ! i"] underscore_name_chars show ?thesis by simp
  qed
qed

text \<open>
  C2: every character of every name returned by \<open>clean_and_ensure_unique\<close> is an ASCII
  letter, a digit or an underscore. The name at position \<open>i\<close> is the input name at
  \<open>i\<close> with all other characters removed, followed by nothing or by a suffix made of an
  underscore and at least one digit.
\<close>

theorem clean_and_ensure_unique_chars:
  "(\<forall>name\<in>set (clean_and_ensure_unique names). set name \<subseteq> name_chars) \<and>
   (\<forall>i<length names. \<exists>suffix. clean_and_ensure_unique names ! i =
        filter (\<lambda>c. c \<in> name_chars) (names ! i) @ suffix \<and>
        (suffix = [] \<or> (\<exists>ds. suffix = CHR ''_'' # ds \<and> ds \<noteq> [] \<and> set ds \<subseteq> set ''0123456789'')))"
proof (intro conjI ballI allI impI)
  fix name assume "name \<in> set (clean_and_ensure_unique names)"
  then show "set name \<subseteq> name_chars" by (rule clean_and_ensure_unique_name_chars)
next
  fix i assume i: "i < length names"
  let ?r = "clean_and_ensure_unique names ! i"
  let ?P = "\<lambda>suffix. ?r = filter (\<lambda>c. c \<in> name_chars) (names ! i) @ suffix \<and>
        (suffix = [] \<or> (\<exists>ds. suffix = CHR ''_'' # ds \<and> ds \<noteq> [] \<and> set ds \<subseteq> set ''0123456789''))"
  have cl: "re_sub (names ! i) = filter (\<lambda>c. c \<in> name_chars) (names ! i)"
    by (simp add: re_sub_filter word_char_name_chars [abs_def])
  from clean_and_ensure_unique_nth [OF i] show "\<exists>suffix. ?P suffix"
  proof (elim disjE exE conjE)
    assume "?r = re_sub (names ! i)"
    with cl have p: "?P []" by simp
    show ?thesis by (rule exI [of ?P, OF p])
  next
    fix k assume "?r = re_sub (names ! i) @ ''_'' @ str k"
    with cl have r: "?r = filter (\<lambda>c. c \<in> name_chars) (names ! i) @ (CHR ''_'' # str k)" by simp
    have p: "?P (CHR ''_'' # str k)"
    proof (intro conjI disjI2 exI [of _ "str k"])
      show "?r = filter (\<lambda>c. c \<in> name_chars) (names ! i) @ (CHR ''_'' # str k)" by (rule r)
      show "CHR ''_'' # str k = CHR ''_'' # str k" by (rule refl)
      show "str k \<noteq> []" by (rule str_not_Nil)
      show "set (str k) \<subseteq> set ''0123456789''" by (rule str_digits)
    qed
    show ?thesis by (rule exI [of ?P, OF p])
  qed
qed

text \<open>The docstring's example, on which both parts of C2 are instantiated.\<close>

theorem clean_and_ensure_unique_chars_witness:
  "clean_and_ensure_unique [''3P%'', ''3P'', ''Name'', ''Age%'', ''Age''] =
     [''3P'', ''3P_1'', ''Name'', ''Age'', ''Age_1''] \<and>
   set (concat (clean_and_ensure_unique [''3P%'', ''3P'', ''Name'', ''Age%'', ''Age''])) \<subseteq> name_chars"
proof -
  have e: "clean_and_ensure_unique [''3P%'', ''3P'', ''Name'', ''Age%'', ''Age''] =
     [''3P'', ''3P_1'', ''Name'', ''Age'', ''Age_1'']" by code_simp
  from clean_and_ensure_unique_chars [of "[''3P%'', ''3P'', ''Name'', ''Age%'', ''Age'']"]
  have "\<forall>name\<in>set (clean_and_ensure_unique [''3P%'', ''3P'', ''Name'', ''Age%'', ''Age'']).
    set name \<subseteq> name_chars" by (rule conjunct1)
  then have "set (concat (clean_and_ensure_unique [''3P%'', ''3P'', ''Name'', ''Age%'', ''Age''])) \<subseteq> name_chars"
    by auto
  with e show ?thesis by (rule conjI)
qed

lemma distinct_clean_and_ensure_unique: "distinct (clean_and_ensure_unique names)"
  unfolding clean_and_ensure_unique_def by (rule distinct_ensure_unique) simp_all

lemma clean_and_ensure_unique_fixed:
  assumes "\<forall>name\<in>set names. set name \<subseteq> name_chars" and "distinct names"
  shows "clean_and_ensure_unique names = names"
proof -
  from assms(1) have "map re_sub names = names" by (simp add: map_idI re_sub_clean)
  moreover from assms(2) have "ensure_unique 0 names [] = names"
    by (rule ensure_unique_fixed) (simp add: in_seen_def)
  ultimately show ?thesis by (simp add: clean_and_ensure_unique_def)
qed

lemma clean_and_ensure_unique_fixed_iff:
  "(clean_and_ensure_unique names = names) =
   (distinct names \<and> (\<forall>name\<in>set names. set name \<subseteq> name_chars))"
proof
  assume e: "clean_and_ensure_unique names = names"
  have "distinct (clean_and_ensure_unique names)" by (rule distinct_clean_and_ensure_unique)
  moreover have "\<forall>name\<in>set (clean_and_ensure_unique names). set name \<subseteq> name_chars"
    by (rule ballI) (rule clean_and_ensure_unique_name_chars)
  ultimately show "distinct names \<and> (\<forall>name\<in>set names. set name \<subseteq> name_chars)"
    unfolding e by (rule conjI)
next
  assume "distinct names \<and> (\<forall>name\<in>set names. set name \<subseteq> name_chars)"
  then show "clean_and_ensure_unique names = names"
    by (simp add: clean_and_ensure_unique_fixed)
qed

lemma while_in_seen_least:
  "(\<not> in_seen name seen \<longrightarrow> while_in_seen original_name seen name counter = name) \<and>
   (in_seen name seen \<longrightarrow>
      (\<exists>k\<ge>counter. while_in_seen original_name seen name counter = original_name @ ''_'' @ str k \<and>
         (\<forall>j. counter \<le> j \<and> j < k \<longrightarrow> in_seen (original_name @ ''_'' @ str j) seen)))"
proof (induction original_name seen name counter rule: while_in_seen.induct)
  case (1 original_name seen name counter)
  let ?cand = "\<lambda>k. original_name @ ''_'' @ str k"
  show ?case
  proof (cases "in_seen name seen")
    case False
    then show ?thesis by (simp add: while_in_seen_fresh)
  next
    case True
    then have e: "while_in_seen original_name seen name counter =
      while_in_seen original_name seen (?cand counter) (counter + 1)"
      by (subst while_in_seen.simps) simp
    note IH = "1.IH" [OF True]
    have "\<exists>k\<ge>counter. while_in_seen original_name seen (?cand counter) (counter + 1) = ?cand k \<and>
         (\<forall>j. counter \<le> j \<and> j < k \<longrightarrow> in_seen (?cand j) seen)"
    proof (cases "in_seen (?cand counter) seen")
      case False
      with IH have "while_in_seen original_name seen (?cand counter) (counter + 1) = ?cand counter"
        by simp
      then show ?thesis by (intro exI [of _ counter]) auto
    next
      case c: True
      with IH obtain k where k: "counter + 1 \<le> k"
        and r: "while_in_seen original_name seen (?cand counter) (counter + 1) = ?cand k"
        and a: "\<forall>j. counter + 1 \<le> j \<and> j < k \<longrightarrow> in_seen (?cand j) seen"
        by blast
      have "\<forall>j. counter \<le> j \<and> j < k \<longrightarrow> in_seen (?cand j) seen"
      proof (intro allI impI)
        fix j assume j: "counter \<le> j \<and> j < k"
        show "in_seen (?cand j) seen"
        proof (cases "j = counter")
          case True
          with c show ?thesis by simp
        next
          case False
          with j have "counter + 1 \<le> j \<and> j < k" by simp
          with a show ?thesis by blast
        qed
      qed
      with k r show ?thesis by (intro exI [of _ k]) simp
    qed
    with True show ?thesis unfolding e by simp
  qed
qed

lemma take_ensure_unique:
  assumes "n \<le> i"
  shows "take n (ensure_unique i cleaned_names seen) = take n cleaned_names"
proof (rule nth_equalityI)
  show "length (take n (ensure_unique i cleaned_names seen)) = length (take n cleaned_names)"
    by (simp add: length_ensure_unique)
next
  fix j assume "j < length (take n (ensure_unique i cleaned_names seen))"
  then have j: "j < n" "j < length cleaned_names" by (simp_all add: length_ensure_unique)
  with assms have "j < i" by simp
  with ensure_unique_nth [OF j(2), of i seen]
  have "ensure_unique i cleaned_names seen ! j = cleaned_names ! j" by simp
  with j show "take n (ensure_unique i cleaned_names seen) ! j = take n cleaned_names ! j"
    by simp
qed

text \<open>
  The loop invariant that \<open>seen\<close> holds exactly the names written so far gives each later
  name in terms of the names before it: the cleaned name when it is new, and otherwise
  the cleaned name with the first counter, from 1 on, that makes it new.
\<close>

lemma ensure_unique_least:
  assumes "\<forall>n. in_seen n seen = (n \<in> set (take i cleaned_names))"
    and "i \<le> j" and "j < length cleaned_names"
  shows "(cleaned_names ! j \<notin> set (take j (ensure_unique i cleaned_names seen)) \<longrightarrow>
            ensure_unique i cleaned_names seen ! j = cleaned_names ! j) \<and>
         (cleaned_names ! j \<in> set (take j (ensure_unique i cleaned_names seen)) \<longrightarrow>
            (\<exists>k\<ge>1. ensure_unique i cleaned_names seen ! j = cleaned_names ! j @ ''_'' @ str k \<and>
               (\<forall>m. 1 \<le> m \<and> m < k \<longrightarrow>
                  cleaned_names ! j @ ''_'' @ str m \<in> set (take j (ensure_unique i cleaned_names seen)))))"
  using assms
proof (induction i cleaned_names seen rule: ensure_unique.induct)
  case (1 i cleaned_names seen)
  from "1.prems" have il: "i < length cleaned_names" by simp
  define name where "name = while_in_seen (cleaned_names ! i) seen (cleaned_names ! i) 1"
  let ?cs = "cleaned_names[i := name]"
  let ?seen = "AList.update name True seen"
  let ?r = "ensure_unique (i + 1) ?cs ?seen"
  have e: "ensure_unique i cleaned_names seen = ?r"
    using il by (subst ensure_unique.simps) (simp add: Let_def name_def)
  have inv: "\<forall>n. in_seen n ?seen = (n \<in> set (take (i + 1) ?cs))"
    using "1.prems"(1) il by (auto simp: in_seen_update take_Suc_conv_app_nth)
  show ?case
  proof (cases "j = i")
    case False
    with "1.prems" have "i + 1 \<le> j" "j < length ?cs" by simp_all
    from "1.IH" [OF il name_def inv this] False show ?thesis unfolding e by simp
  next
    case True
    have "take i ?r = take i ?cs" by (rule take_ensure_unique) simp
    then have tk: "take i ?r = take i cleaned_names" by simp
    have "i < length ?cs" using il by simp
    from ensure_unique_nth [OF this, of "i + 1" ?seen] il have ri: "?r ! i = name" by simp
    have seen: "in_seen n seen = (n \<in> set (take i ?r))" for n
      using "1.prems"(1) tk by simp
    from while_in_seen_least [of "cleaned_names ! i" seen "cleaned_names ! i" 1]
    show ?thesis unfolding e True ri seen name_def [symmetric] by simp
  qed
qed

text \<open>
  C1: for every list of strings, \<open>clean_and_ensure_unique\<close> returns a list of the same
  length whose elements are pairwise distinct. The name at position \<open>i\<close> is the cleaned
  input name when no earlier returned name equals it; otherwise it is the cleaned name
  followed by an underscore and the counter \<open>k\<close>, where \<open>k\<close> is the first counter from 1
  on whose name is not among the earlier returned names.
\<close>

theorem clean_and_ensure_unique_counter_suffix:
  "length (clean_and_ensure_unique names) = length names \<and>
   distinct (clean_and_ensure_unique names) \<and>
   (\<forall>i<length names.
      (filter (\<lambda>c. c \<in> name_chars) (names ! i) \<notin> set (take i (clean_and_ensure_unique names)) \<longrightarrow>
         clean_and_ensure_unique names ! i = filter (\<lambda>c. c \<in> name_chars) (names ! i)) \<and>
      (filter (\<lambda>c. c \<in> name_chars) (names ! i) \<in> set (take i (clean_and_ensure_unique names)) \<longrightarrow>
         (\<exists>k\<ge>1. clean_and_ensure_unique names ! i =
                   filter (\<lambda>c. c \<in> name_chars) (names ! i) @ ''_'' @ str k \<and>
            (\<forall>m. 1 \<le> m \<and> m < k \<longrightarrow>
               filter (\<lambda>c. c \<in> name_chars) (names ! i) @ ''_'' @ str m
                 \<in> set (take i (clean_and_ensure_unique names))))))"
proof -
  have len: "length (clean_and_ensure_unique names) = length names"
    by (simp add: clean_and_ensure_unique_def length_ensure_unique)
  have dis: "distinct (clean_and_ensure_unique names)"
    by (rule distinct_clean_and_ensure_unique)
  have at: "\<forall>i<length names.
      (filter (\<lambda>c. c \<in> name_chars) (names ! i) \<notin> set (take i (clean_and_ensure_unique names)) \<longrightarrow>
         clean_and_ensure_unique names ! i = filter (\<lambda>c. c \<in> name_chars) (names ! i)) \<and>
      (filter (\<lambda>c. c \<in> name_chars) (names ! i) \<in> set (take i (clean_and_ensure_unique names)) \<longrightarrow>
         (\<exists>k\<ge>1. clean_and_ensure_unique names ! i =
                   filter (\<lambda>c. c \<in> name_chars) (names ! i) @ ''_'' @ str k \<and>
            (\<forall>m. 1 \<le> m \<and> m < k \<longrightarrow>
               filter (\<lambda>c. c \<in> name_chars) (names ! i) @ ''_'' @ str m
                 \<in> set (take i (clean_and_ensure_unique names)))))"
  proof (intro allI impI)
    fix i assume i: "i < length names"
    have cl: "map re_sub names ! i = filter (\<lambda>c. c \<in> name_chars) (names ! i)"
      using i by (simp add: re_sub_filter word_char_name_chars [abs_def])
    have inv: "\<forall>n. in_seen n [] = (n \<in> set (take 0 (map re_sub names)))"
      by (simp add: in_seen_def)
    from i have il: "i < length (map re_sub names)" by simp
    show "(filter (\<lambda>c. c \<in> name_chars) (names ! i) \<notin> set (take i (clean_and_ensure_unique names)) \<longrightarrow>
         clean_and_ensure_unique names ! i = filter (\<lambda>c. c \<in> name_chars) (names ! i)) \<and>
      (filter (\<lambda>c. c \<in> name_chars) (names ! i) \<in> set (take i (clean_and_ensure_unique names)) \<longrightarrow>
         (\<exists>k\<ge>1. clean_and_ensure_unique names ! i =
                   filter (\<lambda>c. c \<in> name_chars) (names ! i) @ ''_'' @ str k \<and>
            (\<forall>m. 1 \<le> m \<and> m < k \<longrightarrow>
               filter (\<lambda>c. c \<in> name_chars) (names ! i) @ ''_'' @ str m
                 \<in> set (take i (clean_and_ensure_unique names)))))"
      unfolding clean_and_ensure_unique_def cl [symmetric]
      by (rule ensure_unique_least [OF inv _ il]) simp
  qed
  from len dis at show ?thesis by (intro conjI)
qed

text \<open>
  C1 on the docstring's example: \<open>Name\<close> is new and stays, the second \<open>3P\<close> gets a
  counter.
\<close>

theorem clean_and_ensure_unique_counter_suffix_witness:
  "length (clean_and_ensure_unique [''3P%'', ''3P'', ''Name'', ''Age%'', ''Age'']) = 5 \<and>
   distinct (clean_and_ensure_unique [''3P%'', ''3P'', ''Name'', ''Age%'', ''Age'']) \<and>
   clean_and_ensure_unique [''3P%'', ''3P'', ''Name'', ''Age%'', ''Age''] ! 2 = ''Name'' \<and>
   (\<exists>k. 1 \<le> k \<and>
      clean_and_ensure_unique [''3P%'', ''3P'', ''Name'', ''Age%'', ''Age''] ! 1 = ''3P'' @ ''_'' @ str k)"
proof -
  let ?names = "[''3P%'', ''3P'', ''Name'', ''Age%'', ''Age'']"
  note spec = clean_and_ensure_unique_counter_suffix [of ?names]
  have e: "clean_and_ensure_unique ?names = [''3P'', ''3P_1'', ''Name'', ''Age'', ''Age_1'']"
    by code_simp
  have f1: "filter (\<lambda>c. c \<in> name_chars) (?names ! 1) = ''3P''"
    and f2: "filter (\<lambda>c. c \<in> name_chars) (?names ! 2) = ''Name''"
    by (simp_all add: name_chars_def)
  from spec have len: "length (clean_and_ensure_unique ?names) = 5" by simp
  from spec have dis: "distinct (clean_and_ensure_unique ?names)" by (rule conjunct2 [THEN conjunct1])
  from spec have at: "\<forall>i<length ?names.
      (filter (\<lambda>c. c \<in> name_chars) (?names ! i) \<notin> set (take i (clean_and_ensure_unique ?names)) \<longrightarrow>
         clean_and_ensure_unique ?names ! i = filter (\<lambda>c. c \<in> name_chars) (?names ! i)) \<and>
      (filter (\<lambda>c. c \<in> name_chars) (?names ! i) \<in> set (take i (clean_and_ensure_unique ?names)) \<longrightarrow>
         (\<exists>k\<ge>1. clean_and_ensure_unique ?names ! i =
                   filter (\<lambda>c. c \<in> name_chars) (?names ! i) @ ''_'' @ str k \<and>
            (\<forall>m. 1 \<le> m \<and> m < k \<longrightarrow>
               filter (\<lambda>c. c \<in> name_chars) (?names ! i) @ ''_'' @ str m
                 \<in> set (take i (clean_and_ensure_unique ?names)))))"
    by (rule conjunct2 [THEN conjunct2])
  have "''Name'' \<notin> set (take 2 (clean_and_ensure_unique ?names))" unfolding e by simp
  with at [rule_format, of 2] have n2: "clean_and_ensure_unique ?names ! 2 = ''Name''"
    unfolding f2 by simp
  have "''3P'' \<in> set (take 1 (clean_and_ensure_unique ?names))" unfolding e by simp
  with at [rule_format, of 1] obtain k where "1 \<le> k"
    "clean_and_ensure_unique ?names ! 1 = ''3P'' @ ''_'' @ str k"
    unfolding f1 by auto
  then have "\<exists>k. 1 \<le> k \<and> clean_and_ensure_unique ?names ! 1 = ''3P'' @ ''_'' @ str k"
    by (intro exI [of _ k] conjI)
  with len dis n2 show ?thesis by (intro conjI)
qed

text \<open>
  C8: \<open>clean_and_ensure_unique\<close> is idempotent: applied to its own output it returns
  that output unchanged, and every list of pairwise distinct names over the allowed
  characters is a fixed point.
\<close>

theorem clean_and_ensure_unique_idempotent:
  "clean_and_ensure_unique (clean_and_ensure_unique names) = clean_and_ensure_unique names \<and>
   ((\<forall>name\<in>set names. set name \<subseteq> name_chars) \<and> distinct names \<longrightarrow>
      clean_and_ensure_unique names = names)"
proof (intro conjI impI)
  let ?out = "clean_and_ensure_unique names"
  have "\<forall>name\<in>set ?out. set name \<subseteq> name_chars"
    by (rule ballI) (rule clean_and_ensure_unique_name_chars)
  moreover have "distinct ?out" by (rule distinct_clean_and_ensure_unique)
  ultimately show "clean_and_ensure_unique ?out = ?out" by (rule clean_and_ensure_unique_fixed)
next
  assume "(\<forall>name\<in>set names. set name \<subseteq> name_chars) \<and> distinct names"
  then show "clean_and_ensure_unique names = names"
    by (simp add: clean_and_ensure_unique_fixed)
qed

theorem clean_and_ensure_unique_idempotent_witness:
  "clean_and_ensure_unique [''3P'', ''3P_1'', ''Name'', ''Age'', ''Age_1''] =
     [''3P'', ''3P_1'', ''Name'', ''Age'', ''Age_1'']"
proof -
  have "\<forall>name\<in>set [''3P'', ''3P_1'', ''Name'', ''Age'', ''Age_1'']. set name \<subseteq> name_chars"
    by (simp add: name_chars_def)
  moreover have "distinct [''3P'', ''3P_1'', ''Name'', ''Age'', ''Age_1'']" by simp
  ultimately show ?thesis
    using clean_and_ensure_unique_idempotent [of "[''3P'', ''3P_1'', ''Name'', ''Age'', ''Age_1'']"]
    by blast
qed

section \<open>Properties of the Classifier wrapper\<close>

lemma example_init:
  "Classifier_init recording_engine example_config example_train_input example_schema = Inr example_classifier"
  by (simp add: Classifier_init_def drop_columns_def getitem_def dict_getitem_def columns_def
      example_config_def example_train_input_def example_schema_def example_classifier_def
      recording_engine_def)

lemma example_train:
  "train recording_engine example_classifier = (Inr (), example_trained)"
  by (simp add: train_def example_classifier_def example_trained_def recording_engine_def)

text \<open>
  C6: for every model and input data, \<open>predict_with_model\<close> returns exactly the
  engine's \<open>predict_proba\<close> outcome on that data when \<open>return_proba\<close> is true and
  its \<open>predict\<close> outcome otherwise; the data reach the engine as given, the outcome
  comes back as given, and the model is left as it was.
\<close>

theorem predict_with_model_delegates:
  "predict_with_model eng model data return_proba =
     ((if return_proba then automl_predict_proba eng (automl model) data
       else automl_predict eng (automl model) data), model)"
  by (simp add: predict_with_model_def predict_def predict_proba_def)

text \<open>
  C10: \<open>predict\<close>, \<open>predict_proba\<close> and \<open>save\<close> leave every field of the
  Classifier unchanged, whatever their outcome; for \<open>save\<close> this covers the path that
  raises \<open>NotFittedError\<close>.
\<close>

theorem predict_save_frame:
  "snd (predict eng self inputs) = self \<and> snd (predict_proba eng self inputs) = self \<and>
   fst (snd (save sto self model_dir_path fs)) = self"
  by (simp add: predict_def predict_proba_def save_def split: prod.splits sum.splits)

lemma os_path_join_predictor:
  "os_path_join d PREDICTOR_FILE_NAME =
     (if d = [] \<or> last d = CHR ''/'' then d else d @ ''/'') @ ''predictor.joblib''"
  by (simp add: os_path_join_def PREDICTOR_FILE_NAME_def)

text \<open>
  C3: \<open>save\<close> raises \<open>NotFittedError\<close> exactly when \<open>_is_trained\<close> is false; when
  it is true, \<open>save\<close> is the \<open>joblib.dump\<close> of the object to the file
  \<open>predictor.joblib\<close> in the given directory. No other operation checks the flag:
  \<open>train\<close> and \<open>load\<close> never raise \<open>NotFittedError\<close>, the outcomes of \<open>train\<close>,
  \<open>predict\<close> and \<open>predict_proba\<close> do not depend on the flag, and \<open>load\<close> returns
  whatever object the file holds.
\<close>

theorem save_not_fitted_guard:
  "((\<exists>msg. fst (save sto self d fs) = Inl (NotFittedError msg)) = (\<not> is_trained self)) \<and>
   (is_trained self \<longrightarrow>
      save sto self d fs =
        (case joblib_dump sto self
                ((if d = [] \<or> last d = CHR ''/'' then d else d @ ''/'') @ ''predictor.joblib'') fs of
           (r, fs') \<Rightarrow> (map_sum LibraryError id r, self, fs'))) \<and>
   (\<forall>msg. fst (train eng c) \<noteq> Inl (NotFittedError msg)) \<and>
   fst (train eng (c\<lparr>is_trained := b\<rparr>)) = fst (train eng c) \<and>
   fst (predict eng (c\<lparr>is_trained := b\<rparr>) inputs) = fst (predict eng c inputs) \<and>
   fst (predict_proba eng (c\<lparr>is_trained := b\<rparr>) inputs) = fst (predict_proba eng c inputs) \<and>
   (\<forall>msg. load sto d fs \<noteq> Inl (NotFittedError msg)) \<and>
   (\<forall>obj. joblib_load sto (os_path_join d PREDICTOR_FILE_NAME) fs = Inr obj \<longrightarrow>
      load sto d fs = Inr obj)"
proof (intro conjI)
  show "(\<exists>msg. fst (save sto self d fs) = Inl (NotFittedError msg)) = (\<not> is_trained self)"
    by (simp add: save_def split: prod.splits sum.splits)
  show "is_trained self \<longrightarrow>
      save sto self d fs =
        (case joblib_dump sto self
                ((if d = [] \<or> last d = CHR ''/'' then d else d @ ''/'') @ ''predictor.joblib'') fs of
           (r, fs') \<Rightarrow> (map_sum LibraryError id r, self, fs'))"
    by (simp add: save_def os_path_join_predictor split: prod.splits sum.splits)
  show "\<forall>msg. fst (train eng c) \<noteq> Inl (NotFittedError msg)"
    by (simp add: train_def split: prod.splits sum.splits)
  show "fst (train eng (c\<lparr>is_trained := b\<rparr>)) = fst (train eng c)"
    by (simp add: train_def split: prod.splits sum.splits)
  show "fst (predict eng (c\<lparr>is_trained := b\<rparr>) inputs) = fst (predict eng c inputs)"
    by (simp add: predict_def)
  show "fst (predict_proba eng (c\<lparr>is_trained := b\<rparr>) inputs) = fst (predict_proba eng c inputs)"
    by (simp add: predict_proba_def)
  show "\<forall>msg. load sto d fs \<noteq> Inl (NotFittedError msg)"
    by (simp add: load_def split: sum.splits)
  show "\<forall>obj. joblib_load sto (os_path_join d PREDICTOR_FILE_NAME) fs = Inr obj \<longrightarrow>
      load sto d fs = Inr obj"
    by (simp add: load_def)
qed

text \<open>
  C3 on the in-memory file system: the untrained example is refused, the trained one is
  written to \<open>model/predictor.joblib\<close>.
\<close>

theorem save_not_fitted_guard_witness:
  "fst (save memory_storage example_classifier ''model'' ([''model''], [])) =
     Inl (NotFittedError ''Model is not fitted yet.'') \<and>
   save memory_storage example_trained ''model'' ([''model''], []) =
     (Inr (), example_trained, ([''model''], [(''model/predictor.joblib'', example_trained)]))"
proof
  note guard = save_not_fitted_guard
    [of memory_storage example_classifier "''model''" "([''model''], [])", THEN conjunct1]
  have "\<not> is_trained example_classifier" by (simp add: example_classifier_def)
  with guard obtain msg where
    "fst (save memory_storage example_classifier ''model'' ([''model''], [])) = Inl (NotFittedError msg)"
    by blast
  then show "fst (save memory_storage example_classifier ''model'' ([''model''], [])) =
     Inl (NotFittedError ''Model is not fitted yet.'')"
    by (simp add: save_def split: if_splits prod.splits sum.splits)
next
  note writes = save_not_fitted_guard
    [of memory_storage example_trained "''model''" "([''model''], [])",
     THEN conjunct2, THEN conjunct1, rule_format]
  have "is_trained example_trained" by (simp add: example_trained_def)
  then have "save memory_storage example_trained ''model'' ([''model''], []) =
        (case joblib_dump memory_storage example_trained ''model/predictor.joblib'' ([''model''], []) of
           (r, fs') \<Rightarrow> (map_sum LibraryError id r, example_trained, fs'))"
    using writes by simp
  then show "save memory_storage example_trained ''model'' ([''model''], []) =
     (Inr (), example_trained, ([''model''], [(''model/predictor.joblib'', example_trained)]))"
    by (simp add: memory_storage_def)
qed

lemma posix_storage_law:
  "joblib_dump posix_storage obj p s = (Inr (), s') \<Longrightarrow> joblib_load posix_storage p s' = Inr obj"
  by (auto simp: posix_storage_def update_conv' split: if_splits)





lemma drop_columns_single:
  "drop_columns [t] df =
     (if t \<in> set (columns df) then Inr (filter (\<lambda>col. fst col \<noteq> t) df) else Inl (KeyError t))"
  by (simp add: drop_columns_def)

lemma filter_label_not_Nil: "t \<in> set (columns df) \<Longrightarrow> filter (\<lambda>col. fst col = t) df \<noteq> []"
  by (auto simp: columns_def filter_empty_conv)

lemma getitem_present:
  "t \<in> set (columns df) \<Longrightarrow>
   getitem df t = Inr (case filter (\<lambda>col. fst col = t) df of
                         [col] \<Rightarrow> Series (fst col) (snd col) | cols \<Rightarrow> Frame cols)"
  using filter_label_not_Nil [of t df]
  by (simp add: getitem_def split: list.splits)

lemma getitem_absent:
  assumes "t \<notin> set (columns df)"
  shows "getitem df t = Inl (KeyError t)"
proof -
  from assms have "filter (\<lambda>col. fst col = t) df = []"
    by (auto simp: columns_def filter_empty_conv)
  then show ?thesis by (simp add: getitem_def)
qed

lemma Classifier_init_Inr:
  assumes "Classifier_init eng config train_input sch = Inr c"
  shows "\<exists>task_time model_time incl seed_value.
     target sch \<in> set (columns train_input) \<and>
     config ''task_time'' = Some task_time \<and> config ''model_time'' = Some model_time \<and>
     config ''include'' = Some incl \<and> config ''seed_value'' = Some seed_value \<and>
     c = \<lparr>is_trained = False,
          x = filter (\<lambda>col. fst col \<noteq> target sch) train_input,
          y = (case filter (\<lambda>col. fst col = target sch) train_input of
                 [col] \<Rightarrow> Series (fst col) (snd col) | cols \<Rightarrow> Frame cols),
          schema = sch, model_name = ''auto_sklearn_classifier'', model_config = config,
          automl = AutoSklearnClassifier eng
            \<lparr>time_left_for_this_task = task_time, per_run_time_limit = model_time,
             metric = (if model_category sch = ''binary_classification'' then f1 else f1_macro),
             include_arg = incl, seed = seed_value\<rparr>\<rparr>"
proof (cases "target sch \<in> set (columns train_input)")
  case True
  with assms show ?thesis
    by (auto simp: Classifier_init_def drop_columns_single getitem_present dict_getitem_def Let_def
        split: option.splits)
next
  case False
  with assms show ?thesis
    by (simp add: Classifier_init_def drop_columns_single)
qed

lemma Classifier_init_succeeds:
  assumes "target sch \<in> set (columns train_input)"
    and "config ''task_time'' = Some task_time" and "config ''model_time'' = Some model_time"
    and "config ''include'' = Some incl" and "config ''seed_value'' = Some seed_value"
  shows "Classifier_init eng config train_input sch =
     Inr \<lparr>is_trained = False,
          x = filter (\<lambda>col. fst col \<noteq> target sch) train_input,
          y = (case filter (\<lambda>col. fst col = target sch) train_input of
                 [col] \<Rightarrow> Series (fst col) (snd col) | cols \<Rightarrow> Frame cols),
          schema = sch, model_name = ''auto_sklearn_classifier'', model_config = config,
          automl = AutoSklearnClassifier eng
            \<lparr>time_left_for_this_task = task_time, per_run_time_limit = model_time,
             metric = (if model_category sch = ''binary_classification'' then f1 else f1_macro),
             include_arg = incl, seed = seed_value\<rparr>\<rparr>"
  using assms
  by (simp add: Classifier_init_def drop_columns_single getitem_present dict_getitem_def Let_def)

text \<open>
  C7: \<open>__init__\<close> builds the engine object from the model config:
  \<open>time_left_for_this_task\<close> is \<open>task_time\<close>, \<open>per_run_time_limit\<close> is \<open>model_time\<close>,
  \<open>include\<close> is \<open>include\<close>, \<open>seed\<close> is \<open>seed_value\<close>, and the metric is \<open>f1\<close> for the
  model category \<open>binary_classification\<close> and \<open>f1_macro\<close> otherwise. It returns whenever
  the target column and the four keys are present.
\<close>

theorem Classifier_init_engine_args:
  "(Classifier_init eng config train_input sch = Inr c \<longrightarrow>
      (\<exists>task_time model_time incl seed_value.
         config ''task_time'' = Some task_time \<and> config ''model_time'' = Some model_time \<and>
         config ''include'' = Some incl \<and> config ''seed_value'' = Some seed_value \<and>
         automl c = AutoSklearnClassifier eng
           \<lparr>time_left_for_this_task = task_time, per_run_time_limit = model_time,
            metric = (if model_category sch = ''binary_classification'' then f1 else f1_macro),
            include_arg = incl, seed = seed_value\<rparr> \<and>
         model_config c = config)) \<and>
   (target sch \<in> set (columns train_input) \<and>
    config ''task_time'' \<noteq> None \<and> config ''model_time'' \<noteq> None \<and>
    config ''include'' \<noteq> None \<and> config ''seed_value'' \<noteq> None \<longrightarrow>
      (\<exists>c'. Classifier_init eng config train_input sch = Inr c'))"
proof (intro conjI impI)
  assume "Classifier_init eng config train_input sch = Inr c"
  from Classifier_init_Inr [OF this] obtain task_time model_time incl seed_value where
    k: "config ''task_time'' = Some task_time" "config ''model_time'' = Some model_time"
       "config ''include'' = Some incl" "config ''seed_value'' = Some seed_value"
    and c: "c = \<lparr>is_trained = False,
          x = filter (\<lambda>col. fst col \<noteq> target sch) train_input,
          y = (case filter (\<lambda>col. fst col = target sch) train_input of
                 [col] \<Rightarrow> Series (fst col) (snd col) | cols \<Rightarrow> Frame cols),
          schema = sch, model_name = ''auto_sklearn_classifier'', model_config = config,
          automl = AutoSklearnClassifier eng
            \<lparr>time_left_for_this_task = task_time, per_run_time_limit = model_time,
             metric = (if model_category sch = ''binary_classification'' then f1 else f1_macro),
             include_arg = incl, seed = seed_value\<rparr>\<rparr>"
    by blast
  from c have "automl c = AutoSklearnClassifier eng
           \<lparr>time_left_for_this_task = task_time, per_run_time_limit = model_time,
            metric = (if model_category sch = ''binary_classification'' then f1 else f1_macro),
            include_arg = incl, seed = seed_value\<rparr>" and "model_config c = config"
    by simp_all
  with k show "\<exists>task_time model_time incl seed_value.
         config ''task_time'' = Some task_time \<and> config ''model_time'' = Some model_time \<and>
         config ''include'' = Some incl \<and> config ''seed_value'' = Some seed_value \<and>
         automl c = AutoSklearnClassifier eng
           \<lparr>time_left_for_this_task = task_time, per_run_time_limit = model_time,
            metric = (if model_category sch = ''binary_classification'' then f1 else f1_macro),
            include_arg = incl, seed = seed_value\<rparr> \<and>
         model_config c = config"
    by (intro exI conjI)
next
  assume "target sch \<in> set (columns train_input) \<and>
    config ''task_time'' \<noteq> None \<and> config ''model_time'' \<noteq> None \<and>
    config ''include'' \<noteq> None \<and> config ''seed_value'' \<noteq> None"
  then obtain task_time model_time incl seed_value where
    "target sch \<in> set (columns train_input)"
    "config ''task_time'' = Some task_time" "config ''model_time'' = Some model_time"
    "config ''include'' = Some incl" "config ''seed_value'' = Some seed_value"
    by auto
  from Classifier_init_succeeds [OF this, of eng]
  show "\<exists>c'. Classifier_init eng config train_input sch = Inr c'" by (rule exI)
qed

text \<open>
  C7 on the example: a binary schema and the config values 60, 10, 0 and 42.
\<close>

theorem Classifier_init_engine_args_witness:
  "Classifier_init recording_engine example_config example_train_input example_schema =
     Inr example_classifier \<and>
   automl example_classifier =
     AutoSklearnClassifier recording_engine
       \<lparr>time_left_for_this_task = 60, per_run_time_limit = 10, metric = f1,
        include_arg = 0, seed = 42\<rparr>"
proof
  show i: "Classifier_init recording_engine example_config example_train_input example_schema =
     Inr example_classifier" by (rule example_init)
  from Classifier_init_engine_args [THEN conjunct1, rule_format, OF i]
  obtain task_time model_time incl seed_value where
    k: "example_config ''task_time'' = Some task_time" "example_config ''model_time'' = Some model_time"
       "example_config ''include'' = Some incl" "example_config ''seed_value'' = Some seed_value"
    and a: "automl example_classifier = AutoSklearnClassifier recording_engine
           \<lparr>time_left_for_this_task = task_time, per_run_time_limit = model_time,
            metric = (if model_category example_schema = ''binary_classification'' then f1 else f1_macro),
            include_arg = incl, seed = seed_value\<rparr>"
    by blast
  from k have "task_time = 60" "model_time = 10" "incl = 0" "seed_value = 42"
    by (simp_all add: example_config_def)
  with a show "automl example_classifier =
     AutoSklearnClassifier recording_engine
       \<lparr>time_left_for_this_task = 60, per_run_time_limit = 10, metric = f1,
        include_arg = 0, seed = 42\<rparr>"
    by (simp add: example_schema_def)
qed

text \<open>
  C9: for a training DataFrame that has the schema's target column, \<open>__init__\<close> sets
  \<open>x\<close> to the input without the columns labelled with the target, \<open>y\<close> to the target
  column (a Series when the label occurs once, the frame of its columns when it repeats),
  \<open>schema\<close> to the schema given and \<open>_is_trained\<close> to false; it returns whenever the
  config has the four keys.
\<close>

theorem Classifier_init_fields:
  assumes "target sch \<in> set (columns train_input)"
  shows "(Classifier_init eng config train_input sch = Inr c \<longrightarrow>
            x c = filter (\<lambda>col. fst col \<noteq> target sch) train_input \<and>
            (\<forall>vals. filter (\<lambda>col. fst col = target sch) train_input = [(target sch, vals)] \<longrightarrow>
               y c = Series (target sch) vals) \<and>
            (1 < length (filter (\<lambda>col. fst col = target sch) train_input) \<longrightarrow>
               y c = Frame (filter (\<lambda>col. fst col = target sch) train_input)) \<and>
            schema c = sch \<and> is_trained c = False) \<and>
         (config ''task_time'' \<noteq> None \<and> config ''model_time'' \<noteq> None \<and>
          config ''include'' \<noteq> None \<and> config ''seed_value'' \<noteq> None \<longrightarrow>
            (\<exists>c'. Classifier_init eng config train_input sch = Inr c'))"
proof (intro conjI impI allI)
  assume i: "Classifier_init eng config train_input sch = Inr c"
  let ?sel = "filter (\<lambda>col. fst col = target sch) train_input"
  from Classifier_init_Inr [OF i]
  have cx: "x c = filter (\<lambda>col. fst col \<noteq> target sch) train_input"
    and cy: "y c = (case ?sel of [col] \<Rightarrow> Series (fst col) (snd col) | cols \<Rightarrow> Frame cols)"
    and cs: "schema c = sch" and ct: "is_trained c = False"
    by auto
  show "x c = filter (\<lambda>col. fst col \<noteq> target sch) train_input" by (rule cx)
  show "schema c = sch" by (rule cs)
  show "is_trained c = False" by (rule ct)
  show "y c = Series (target sch) vals" if "?sel = [(target sch, vals)]" for vals
    using cy that by simp
  show "y c = Frame ?sel" if "1 < length ?sel"
    using cy that by (cases ?sel rule: list.exhaust [case_names Nil Cons]) (auto split: list.splits)
next
  assume "config ''task_time'' \<noteq> None \<and> config ''model_time'' \<noteq> None \<and>
          config ''include'' \<noteq> None \<and> config ''seed_value'' \<noteq> None"
  then obtain task_time model_time incl seed_value where
    "config ''task_time'' = Some task_time" "config ''model_time'' = Some model_time"
    "config ''include'' = Some incl" "config ''seed_value'' = Some seed_value"
    by auto
  from Classifier_init_succeeds [OF assms this, of eng]
  show "\<exists>c'. Classifier_init eng config train_input sch = Inr c'" by (rule exI)
qed

text \<open>
  C9 on the example frame with the columns \<open>3P%\<close>, \<open>3P\<close> and \<open>target\<close>.
\<close>

theorem Classifier_init_fields_witness:
  "Classifier_init recording_engine example_config example_train_input example_schema =
     Inr example_classifier \<and>
   x example_classifier = [(''3P%'', [1, 2]), (''3P'', [3, 4])] \<and>
   y example_classifier = Series ''target'' [0, 1] \<and>
   schema example_classifier = example_schema \<and> is_trained example_classifier = False"
proof -
  have t: "target example_schema \<in> set (columns example_train_input)"
    by (simp add: example_schema_def example_train_input_def columns_def)
  note f = Classifier_init_fields [OF t, THEN conjunct1, rule_format, OF example_init]
  have sel: "filter (\<lambda>col. fst col = target example_schema) example_train_input =
      [(target example_schema, [0, 1])]"
    by (simp add: example_schema_def example_train_input_def)
  from f have "x example_classifier =
      filter (\<lambda>col. fst col \<noteq> target example_schema) example_train_input" by (rule conjunct1)
  then have 1: "x example_classifier = [(''3P%'', [1, 2]), (''3P'', [3, 4])]"
    by (simp add: example_schema_def example_train_input_def)
  from f sel have "y example_classifier = Series (target example_schema) [0, 1]" by blast
  then have 2: "y example_classifier = Series ''target'' [0, 1]" by (simp add: example_schema_def)
  from f have 3: "schema example_classifier = example_schema"
    and 4: "is_trained example_classifier = False" by blast+
  from example_init 1 2 3 4 show ?thesis by (intro conjI)
qed

text \<open>
  C5 fails: the Classifier never calls \<open>clean_and_ensure_unique\<close>. On the example, the
  recording engine receives the labels \<open>3P%\<close> and \<open>3P\<close> for fitting and for
  inference, while the cleaned, uniquified labels would be \<open>3P\<close> and \<open>3P_1\<close>.
\<close>

theorem sanitization_not_applied_counterexample:
  "Classifier_init recording_engine example_config example_train_input example_schema =
     Inr example_classifier \<and>
   map (\<lambda>call. columns (fst call)) (snd (automl (snd (train recording_engine example_classifier)))) =
     [[''3P%'', ''3P'']] \<and>
   fst (predict recording_engine example_classifier [(''3P%'', [5]), (''3P'', [6])]) =
     (''predict'', [''3P%'', ''3P'']) \<and>
   fst (predict_proba recording_engine example_classifier [(''3P%'', [5]), (''3P'', [6])]) =
     (''predict_proba'', [''3P%'', ''3P'']) \<and>
   clean_and_ensure_unique [''3P%'', ''3P''] = [''3P'', ''3P_1''] \<and>
   [''3P%'', ''3P''] \<noteq> clean_and_ensure_unique [''3P%'', ''3P'']"
proof (intro conjI)
  show "Classifier_init recording_engine example_config example_train_input example_schema =
     Inr example_classifier" by (rule example_init)
  show "map (\<lambda>call. columns (fst call)) (snd (automl (snd (train recording_engine example_classifier)))) =
     [[''3P%'', ''3P'']]"
    by (simp add: example_train example_trained_def columns_def)
  show "fst (predict recording_engine example_classifier [(''3P%'', [5]), (''3P'', [6])]) =
     (''predict'', [''3P%'', ''3P''])"
    by (simp add: predict_def recording_engine_def columns_def)
  show "fst (predict_proba recording_engine example_classifier [(''3P%'', [5]), (''3P'', [6])]) =
     (''predict_proba'', [''3P%'', ''3P''])"
    by (simp add: predict_proba_def recording_engine_def columns_def)
  show e: "clean_and_ensure_unique [''3P%'', ''3P''] = [''3P'', ''3P_1'']" by code_simp
  show "[''3P%'', ''3P''] \<noteq> clean_and_ensure_unique [''3P%'', ''3P'']"
    unfolding e by simp
qed

text \<open>
  C5, amended: the data the Classifier passes to the engine carry the column labels of its
  inputs as given. \<open>fit\<close> receives \<open>self.x\<close> and \<open>self.y\<close>, where the labels of
  \<open>self.x\<close> are those of the training input without the target; \<open>predict\<close> and
  \<open>predict_proba\<close> pass their inputs on unchanged. Labels are what
  \<open>clean_and_ensure_unique\<close> would return exactly when they are pairwise distinct and made
  of ASCII letters, digits and underscores.
\<close>

theorem classifier_passes_columns_as_given:
  "(Classifier_init eng config train_input sch = Inr c \<longrightarrow>
      columns (x c) = filter (\<lambda>l. l \<noteq> target sch) (columns train_input)) \<and>
   fst (train eng self) =
     map_sum LibraryError id (fst (automl_fit eng (automl self) (x self) (y self))) \<and>
   automl (snd (train eng self)) = snd (automl_fit eng (automl self) (x self) (y self)) \<and>
   fst (predict eng self inputs) = automl_predict eng (automl self) inputs \<and>
   fst (predict_proba eng self inputs) = automl_predict_proba eng (automl self) inputs \<and>
   ((clean_and_ensure_unique names = names) =
      (distinct names \<and> (\<forall>name\<in>set names. set name \<subseteq> name_chars)))"
proof (intro conjI impI)
  assume "Classifier_init eng config train_input sch = Inr c"
  from Classifier_init_Inr [OF this]
  have "x c = filter (\<lambda>col. fst col \<noteq> target sch) train_input" by auto
  then show "columns (x c) = filter (\<lambda>l. l \<noteq> target sch) (columns train_input)"
    by (simp add: columns_def filter_map comp_def)
next
  show "fst (train eng self) =
     map_sum LibraryError id (fst (automl_fit eng (automl self) (x self) (y self)))"
    by (simp add: train_def split: prod.splits sum.splits)
  show "automl (snd (train eng self)) = snd (automl_fit eng (automl self) (x self) (y self))"
    by (simp add: train_def split: prod.splits sum.splits)
  show "fst (predict eng self inputs) = automl_predict eng (automl self) inputs"
    by (simp add: predict_def)
  show "fst (predict_proba eng self inputs) = automl_predict_proba eng (automl self) inputs"
    by (simp add: predict_proba_def)
  show "(clean_and_ensure_unique names = names) =
      (distinct names \<and> (\<forall>name\<in>set names. set name \<subseteq> name_chars))"
    by (rule clean_and_ensure_unique_fixed_iff)
qed

text \<open>
  C5, amended, on the example: the labels of \<open>x\<close> keep the percent sign, and a clean
  list of distinct labels is a fixed point.
\<close>

theorem classifier_passes_columns_as_given_witness:
  "columns (x example_classifier) = [''3P%'', ''3P''] \<and>
   clean_and_ensure_unique [''Age'', ''Name''] = [''Age'', ''Name'']"
proof
  from classifier_passes_columns_as_given [THEN conjunct1, rule_format, OF example_init]
  show "columns (x example_classifier) = [''3P%'', ''3P'']"
    by (simp add: columns_def example_train_input_def example_schema_def)
next
  note fixed = classifier_passes_columns_as_given
    [THEN conjunct2, THEN conjunct2, THEN conjunct2, THEN conjunct2, THEN conjunct2,
     of "[''Age'', ''Name'']"]
  have "distinct [''Age'', ''Name''] \<and> (\<forall>name\<in>set [''Age'', ''Name'']. set name \<subseteq> name_chars)"
    by (simp add: name_chars_def)
  with fixed show "clean_and_ensure_unique [''Age'', ''Name''] = [''Age'', ''Name'']" by (rule iffD2)
qed

end
